theory Spec2Isabelle
  imports Main "HOL-Library.AList" "HOL-Library.Char_ord" "HOL-Library.List_Lexorder"
    "HOL-Library.Sublist"
begin

section \<open>Go standard library functions used by the router\<close>

text \<open>
  Go strings are byte sequences; \<^typ>\<open>string\<close> is a list of 8-bit characters.
  The router calls \<open>strings.Split(p, "/")\<close>, \<open>strings.Join(xs, "/")\<close>,
  \<open>strings.TrimRight(p, "/")\<close> and \<open>path.Clean(p)\<close>; the separator is always
  the one-byte string \<open>"/"\<close>, so the models below fix it.
\<close>

abbreviation slash :: char where
  "slash \<equiv> CHR ''/''"

abbreviation dot :: char where
  "dot \<equiv> CHR ''.''"

text \<open>\<open>strings.Split(s, "/")\<close>: the substrings between the separators; the empty
  string gives the one-element slice holding the empty string.\<close>

fun Split :: "string \<Rightarrow> string list" where
  "Split [] = [[]]"
| "Split (c # cs) =
     (if c = slash then [] # Split cs
      else (case Split cs of
              [] \<Rightarrow> [[c]]
            | x # xs \<Rightarrow> (c # x) # xs))"

text \<open>\<open>strings.Join(xs, "/")\<close>.\<close>

fun Join :: "string list \<Rightarrow> string" where
  "Join [] = []"
| "Join [x] = x"
| "Join (x # y # ys) = x @ slash # Join (y # ys)"

text \<open>\<open>strings.TrimRight(s, "/")\<close>: all trailing separators removed.\<close>

definition TrimRight :: "string \<Rightarrow> string" where
  "TrimRight s = rev (dropWhile (\<lambda>c. c = slash) (rev s))"

text \<open>
  \<open>path.Clean\<close> of Go's standard library. It reads the path from the left and writes
  into a buffer \<open>out\<close> (here the bytes written so far, so that the write index \<open>w\<close> of
  the library is \<open>length out\<close>); \<open>dotdot\<close> is the index in the buffer where a
  \<open>..\<close> element must stop backtracking.

  \<open>backtrack out dotdot w\<close> is the loop
  \<^verbatim>\<open>for out.w > dotdot && out.index(out.w) != '/' { out.w-- }\<close>
  started at write index \<open>w\<close>; it returns the final index.
\<close>

fun backtrack :: "string \<Rightarrow> nat \<Rightarrow> nat \<Rightarrow> nat" where
  "backtrack out dotdot 0 = 0"
| "backtrack out dotdot (Suc w) =
     (if Suc w > dotdot \<and> out ! Suc w \<noteq> slash then backtrack out dotdot w else Suc w)"

function clean_loop :: "bool \<Rightarrow> string \<Rightarrow> string \<Rightarrow> nat \<Rightarrow> string" where
  "clean_loop rooted [] out dotdot = out"
| "clean_loop rooted (c # cs) out dotdot =
     (if c = slash then
        \<comment> \<open>empty path element\<close>
        clean_loop rooted cs out dotdot
      else if c = dot \<and> (cs = [] \<or> hd cs = slash) then
        \<comment> \<open>\<open>.\<close> element\<close>
        clean_loop rooted cs out dotdot
      else if c = dot \<and> hd cs = dot \<and> (tl cs = [] \<or> hd (tl cs) = slash) then
        \<comment> \<open>\<open>..\<close> element: remove to last separator\<close>
        (if length out > dotdot then
           clean_loop rooted (tl cs)
             (take (backtrack out dotdot (length out - 1)) out) dotdot
         else if \<not> rooted then
           clean_loop rooted (tl cs)
             ((if length out > 0 then out @ [slash] else out) @ [dot, dot])
             (length ((if length out > 0 then out @ [slash] else out) @ [dot, dot]))
         else clean_loop rooted (tl cs) out dotdot)
      else
        \<comment> \<open>real path element: add a separator if needed, copy the element\<close>
        clean_loop rooted (dropWhile (\<lambda>x. x \<noteq> slash) cs)
          ((if rooted \<and> length out \<noteq> 1 \<or> \<not> rooted \<and> length out \<noteq> 0
            then out @ [slash] else out) @ c # takeWhile (\<lambda>x. x \<noteq> slash) cs)
          dotdot)"
  by pat_completeness auto
termination
proof (relation "measure (\<lambda>(rooted, cs, out, dotdot). length cs)")
  show "wf (measure (\<lambda>(rooted, cs, out, dotdot). length cs))"
    by simp
next
  fix rooted :: bool and c :: char and cs out :: string and dotdot :: nat
  have "length (dropWhile (\<lambda>x. x \<noteq> slash) cs) \<le> length cs"
    by (rule length_dropWhile_le)
  then show "((rooted, dropWhile (\<lambda>x. x \<noteq> slash) cs,
        (if rooted \<and> length out \<noteq> 1 \<or> \<not> rooted \<and> length out \<noteq> 0
         then out @ [slash] else out) @ c # takeWhile (\<lambda>x. x \<noteq> slash) cs, dotdot),
       rooted, c # cs, out, dotdot) \<in> measure (\<lambda>(rooted, cs, out, dotdot). length cs)"
    by simp
qed auto

definition path_Clean :: "string \<Rightarrow> string" where
  "path_Clean p =
     (if p = [] then ''.''
      else
        (let rooted = (hd p = slash);
             out = (if rooted then clean_loop True (tl p) [slash] 1
                    else clean_loop False p [] 0)
         in if out = [] then ''.'' else out))"

section \<open>The mount table\<close>

text \<open>
  A backend is the \<open>billy.Filesystem\<close> that \<open>polyfill.New\<close> allocates around what the
  caller mounts. The router only stores it, compares it with \<open>==\<close> (pointer identity
  of the wrapper) and calls it, so a backend is modelled by its identity. \<open>nil\<close> is
  \<^const>\<open>None\<close>. \<open>time.Time\<close> is an abstract time stamp; the zero time is \<open>0\<close>.
\<close>

type_synonym backend = nat
type_synonym time = int

text \<open>
  \<open>type subRoute struct { fs billy.Filesystem; mtime time.Time; routes map[string]*subRoute }\<close>.
  Every node is allocated by \<open>Mount\<close> and referenced by exactly one parent map, so the
  table is a tree and the pointers are modelled by containment. The map is an association
  list updated with \<^const>\<open>AList.update\<close> and \<^const>\<open>AList.delete\<close>, read with
  \<^const>\<open>map_of\<close>; its order stands for the iteration order of the Go map.
\<close>

datatype subRoute =
  SubRoute (fs: "backend option") (mtime: time) (routes: "(string \<times> subRoute) list")

text \<open>
  Errors and panics. A backend may return any error; the router itself produces the
  ones named here.
  \<^item> \<open>ErrNotExist\<close>: an error for which \<open>os.IsNotExist\<close> holds;
  \<^item> \<open>ErrNotSupported\<close>: \<open>billy.ErrNotSupported\<close>;
  \<^item> \<open>ErrCrossRenameNotSupported\<close>: the error of the default callback,
    \<^verbatim>\<open>fmt.Errorf("renaming across virtual mountpoints is not supported: %w", os.ErrInvalid)\<close>;
  \<^item> \<open>ErrBackend\<close>: any other error of a backend;
  \<^item> \<open>PanicNotMountpoint p\<close>:
    \<^verbatim>\<open>panic(fmt.Errorf("Router.RemoveRoute(%q): not a mountpoint", p))\<close>;
  \<^item> \<open>PanicNil\<close>: the run-time panic of a method call on a nil interface.
\<close>

datatype error =
  ErrNotExist
| ErrNotSupported
| ErrCrossRenameNotSupported
| ErrBackend string
| PanicNotMountpoint string
| PanicNil

text \<open>\<open>type Router struct\<close>; the lock is not modelled (every operation is taken as
  a whole). A Go \<open>error\<close> result is an \<^typ>\<open>error option\<close>, \<open>nil\<close> being
  \<^const>\<open>None\<close>.\<close>

record Router =
  r_routes :: subRoute
  crossFilesystemRenameCallback ::
    "backend option \<Rightarrow> backend option \<Rightarrow> string \<Rightarrow> string \<Rightarrow> error option"

definition crossFilesystemRenameNotSupported ::
  "backend option \<Rightarrow> backend option \<Rightarrow> string \<Rightarrow> string \<Rightarrow> error option" where
  "crossFilesystemRenameNotSupported fromFS toFS fromPath toPath =
     Some ErrCrossRenameNotSupported"

text \<open>\<open>New(root)\<close>; \<open>root\<close> is the identity of the wrapper \<open>polyfill.New(root)\<close>
  and \<open>now\<close> the value of \<open>time.Now()\<close>.\<close>

definition New :: "backend \<Rightarrow> time \<Rightarrow> Router" where
  "New root now =
     \<lparr> r_routes = SubRoute (Some root) now [],
       crossFilesystemRenameCallback = crossFilesystemRenameNotSupported \<rparr>"

text \<open>\<open>cleanPath\<close>, as the source has it.\<close>

definition cleanPath :: "string \<Rightarrow> string" where
  "cleanPath p0 =
     (let p = TrimRight (path_Clean p0)
      in if p = ''.'' then p else '''')"

subsection \<open>Mount\<close>

text \<open>
  The loop of \<open>Mount\<close> over the segments \<open>sp[i:]\<close>, standing at node \<open>sr\<close>: the child
  for the segment is looked up, created with an empty map when missing and stored in the
  parent's map, entered, and stamped with \<open>now\<close>. After the last segment the backend
  is bound: \<open>sr.fs = polyfill.New(fs)\<close>. The function returns the node \<open>sr\<close> as the
  loop and the assignment leave it.
\<close>

fun mount_loop :: "string list \<Rightarrow> time \<Rightarrow> backend \<Rightarrow> subRoute \<Rightarrow> subRoute" where
  "mount_loop [] now f sr = SubRoute (Some f) (mtime sr) (routes sr)"
| "mount_loop (s # sp) now f sr =
     (let c = (case map_of (routes sr) s of
                 None \<Rightarrow> SubRoute None 0 []
               | Some c \<Rightarrow> c)
      in SubRoute (fs sr) (mtime sr)
           (AList.update s (mount_loop sp now f (SubRoute (fs c) now (routes c)))
              (routes sr)))"

definition Mount :: "string \<Rightarrow> backend \<Rightarrow> time \<Rightarrow> Router \<Rightarrow> Router" where
  "Mount p f now r =
     r\<lparr> r_routes := mount_loop (Split (cleanPath p)) now f (r_routes r) \<rparr>"

subsection \<open>Umount\<close>

text \<open>
  \<open>Umount\<close> walks down collecting \<open>parents\<close> and panics at a missing segment, before
  anything is changed (\<^const>\<open>None\<close>). It clears the backend of the last node and then
  walks back up: while the node has neither children nor a backend it is deleted from its
  parent, whose time stamp is set; at the first node that has one of them the loop
  breaks. The function returns the node as the walk leaves it and whether the upward loop
  is still running when it arrives at this node (no \<open>break\<close> so far).
\<close>

fun umount_loop :: "string list \<Rightarrow> time \<Rightarrow> subRoute \<Rightarrow> (subRoute \<times> bool) option" where
  "umount_loop [] now sr = Some (SubRoute None (mtime sr) (routes sr), True)"
| "umount_loop (s # sp) now sr =
     (case map_of (routes sr) s of
        None \<Rightarrow> None
      | Some c \<Rightarrow>
          (case umount_loop sp now c of
             None \<Rightarrow> None
           | Some (c', running) \<Rightarrow>
               if running \<and> \<not> (length (routes c') > 0 \<or> fs c' \<noteq> None)
               then Some (SubRoute (fs sr) now (AList.delete s (routes sr)), True)
               else Some (SubRoute (fs sr) (mtime sr) (AList.update s c' (routes sr)), False)))"

definition Umount :: "string \<Rightarrow> time \<Rightarrow> Router \<Rightarrow> error + Router" where
  "Umount p now r =
     (case umount_loop (Split (cleanPath p)) now (r_routes r) of
        None \<Rightarrow> Inl (PanicNotMountpoint (cleanPath p))
      | Some (sr, running) \<Rightarrow> Inr (r\<lparr> r_routes := sr \<rparr>))"

subsection \<open>Path resolution\<close>

text \<open>
  The loop of \<open>resolvePathWithMount\<close> at index \<open>i\<close>, standing at node \<open>sr\<close>, over the
  segments \<open>sp[i:]\<close>; it returns \<open>lastMount\<close>. The loop assigns \<open>lastMount = i\<close> at a
  node with a backend and assigns nothing to \<open>mount\<close>, which keeps the value
  \<open>r.routes.fs\<close> it was initialised with.
\<close>

fun resolve_loop :: "string list \<Rightarrow> nat \<Rightarrow> subRoute \<Rightarrow> nat \<Rightarrow> nat" where
  "resolve_loop [] i sr lastMount = lastMount"
| "resolve_loop (s # sp) i sr lastMount =
     (case map_of (routes sr) s of
        None \<Rightarrow> lastMount
      | Some c \<Rightarrow> resolve_loop sp (i + 1) c (if fs c \<noteq> None then i else lastMount))"

definition resolvePathWithMount ::
  "Router \<Rightarrow> string \<Rightarrow> string \<times> string \<times> backend option" where
  "resolvePathWithMount r p =
     (let sp = Split (cleanPath p);
          mount = fs (r_routes r);
          lastMount = resolve_loop sp 0 (r_routes r) 0
      in (Join (drop lastMount sp), Join (take lastMount sp), mount))"

definition resolvePath :: "Router \<Rightarrow> string \<Rightarrow> string \<times> backend option" where
  "resolvePath r p =
     (case resolvePathWithMount r p of (sub, m, f) \<Rightarrow> (sub, f))"

section \<open>Backends\<close>

text \<open>
  \<open>os.FileInfo\<close> is an interface; what the router reads of it is \<open>Name()\<close> and
  \<open>IsDir()\<close>, and it builds one of its own, \<open>virtualDir\<close>. \<open>Sys()\<close> is left out.
\<close>

record FileInfo =
  fi_Name :: string
  fi_Size :: int
  fi_Mode :: int
  fi_ModTime :: time
  fi_IsDir :: bool

text \<open>\<open>type virtualDir struct { name string; mtime time.Time }\<close> with its methods:
  size 4096, mode \<open>0755 | os.ModeDir\<close> (a \<open>uint32\<close>; \<open>os.ModeDir\<close> is its bit 31),
  \<open>IsDir()\<close> true.\<close>

definition virtualDir :: "string \<Rightarrow> time \<Rightarrow> FileInfo" where
  "virtualDir name mt =
     \<lparr> fi_Name = name, fi_Size = 4096, fi_Mode = 493 + 2 ^ 31,
       fi_ModTime = mt, fi_IsDir = True \<rparr>"

text \<open>A \<open>billy.File\<close> of a backend: what its \<open>Name()\<close> reports, and the handle.\<close>

datatype File = File (file_Name: string) (file_handle: nat)

text \<open>\<open>type wrappedFile struct { billy.File; originalName string }\<close> and its method
  \<open>Name()\<close>; every other method is the embedded file's.\<close>

record wrappedFile =
  wf_File :: File
  originalName :: string

definition wrappedFile_Name :: "wrappedFile \<Rightarrow> string" where
  "wrappedFile_Name f = originalName f"

text \<open>
  The behaviour of the mounted backends, one function per method of
  \<open>billy.Filesystem\<close> that the operations below call: the result of the call on that
  backend with those arguments. A Go result pair \<open>(v, err)\<close> is \<open>Inl err\<close> when
  \<open>err != nil\<close> and \<open>Inr v\<close> otherwise.
\<close>

record backends =
  be_Create :: "backend \<Rightarrow> string \<Rightarrow> error + File"
  be_Open :: "backend \<Rightarrow> string \<Rightarrow> error + File"
  be_OpenFile :: "backend \<Rightarrow> string \<Rightarrow> int \<Rightarrow> int \<Rightarrow> error + File"
  be_Stat :: "backend \<Rightarrow> string \<Rightarrow> error + FileInfo"
  be_Rename :: "backend \<Rightarrow> string \<Rightarrow> string \<Rightarrow> error option"
  be_ReadDir :: "backend \<Rightarrow> string \<Rightarrow> error + FileInfo list"
  be_TempFile :: "backend \<Rightarrow> string \<Rightarrow> string \<Rightarrow> error + File"

definition IsNotExist :: "error \<Rightarrow> bool" where
  "IsNotExist err = (err = ErrNotExist)"

section \<open>Operations of the router\<close>

definition Create :: "Router \<Rightarrow> backends \<Rightarrow> string \<Rightarrow> error + wrappedFile" where
  "Create r w p =
     (case resolvePath r p of
        (sub, None) \<Rightarrow> Inl PanicNil
      | (sub, Some f) \<Rightarrow>
          (case be_Create w f sub of
             Inl err \<Rightarrow> Inl err
           | Inr fh \<Rightarrow> Inr \<lparr> wf_File = fh, originalName = p \<rparr>))"

definition Open :: "Router \<Rightarrow> backends \<Rightarrow> string \<Rightarrow> error + wrappedFile" where
  "Open r w p =
     (case resolvePath r p of
        (sub, None) \<Rightarrow> Inl PanicNil
      | (sub, Some f) \<Rightarrow>
          (case be_Open w f sub of
             Inl err \<Rightarrow> Inl err
           | Inr fh \<Rightarrow> Inr \<lparr> wf_File = fh, originalName = p \<rparr>))"

definition OpenFile ::
  "Router \<Rightarrow> backends \<Rightarrow> string \<Rightarrow> int \<Rightarrow> int \<Rightarrow> error + wrappedFile" where
  "OpenFile r w p flag mode =
     (case resolvePath r p of
        (sub, None) \<Rightarrow> Inl PanicNil
      | (sub, Some f) \<Rightarrow>
          (case be_OpenFile w f sub flag mode of
             Inl err \<Rightarrow> Inl err
           | Inr fh \<Rightarrow> Inr \<lparr> wf_File = fh, originalName = p \<rparr>))"

text \<open>
  \<open>Rename\<close> resolves both paths and then decides on the two results; the decision is
  \<open>rename_resolved\<close>, on the two triples that \<open>resolvePathWithMount\<close> returned.
\<close>

definition rename_resolved ::
  "Router \<Rightarrow> backends \<Rightarrow> string \<times> string \<times> backend option \<Rightarrow>
   string \<times> string \<times> backend option \<Rightarrow> error option" where
  "rename_resolved r w fromR toR =
     (case fromR of
        (fromSub, fromMount, fromFS) \<Rightarrow>
          (case toR of
             (toSub, toMount, toFS) \<Rightarrow>
               if fromFS = toFS \<and> fromMount = toMount
               then (case fromFS of
                       None \<Rightarrow> Some PanicNil
                     | Some f \<Rightarrow> be_Rename w f fromSub toSub)
               else crossFilesystemRenameCallback r fromFS toFS fromSub toSub))"

definition Rename :: "Router \<Rightarrow> backends \<Rightarrow> string \<Rightarrow> string \<Rightarrow> error option" where
  "Rename r w from to =
     rename_resolved r w (resolvePathWithMount r from) (resolvePathWithMount r to)"


subsection \<open>ReadDir\<close>

text \<open>The loop of \<open>ReadDir\<close> that looks for the node of the listed directory, over the
  segments of the path as given; it returns \<open>sr\<close>.\<close>

fun readdir_walk :: "string list \<Rightarrow> subRoute \<Rightarrow> subRoute" where
  "readdir_walk [] sr = sr"
| "readdir_walk (s # sp) sr =
     (case map_of (routes sr) s of
        None \<Rightarrow> sr
      | Some c \<Rightarrow> readdir_walk sp c)"

text \<open>\<open>for _, e := range entries { out[e.Name()] = e }\<close>, from the map \<open>out\<close>.\<close>

fun insert_entries ::
  "FileInfo list \<Rightarrow> (string \<times> FileInfo) list \<Rightarrow> (string \<times> FileInfo) list" where
  "insert_entries [] out = out"
| "insert_entries (e # es) out = insert_entries es (AList.update (fi_Name e) e out)"

text \<open>\<open>for mp, ro := range routeCopy { ... }\<close>: the children in the order of the
  iteration; the first failing \<open>Stat\<close> ends the listing with its error.\<close>

fun merge_routes ::
  "backends \<Rightarrow> (string \<times> subRoute) list \<Rightarrow> (string \<times> FileInfo) list \<Rightarrow>
   error + (string \<times> FileInfo) list" where
  "merge_routes w [] out = Inr out"
| "merge_routes w ((mp, ro) # rest) out =
     (case fs ro of
        None \<Rightarrow>
          (case map_of out mp of
             None \<Rightarrow> merge_routes w rest (AList.update mp (virtualDir mp (mtime ro)) out)
           | Some e \<Rightarrow>
               if fi_IsDir e then merge_routes w rest out
               else merge_routes w rest (AList.update mp (virtualDir mp (mtime ro)) out))
      | Some f \<Rightarrow>
          (case be_Stat w f ''/'' of
             Inl err \<Rightarrow> Inl err
           | Inr st \<Rightarrow> merge_routes w rest (AList.update mp st out)))"

text \<open>The names of \<open>out\<close> sorted by \<open>sort.Strings\<close> (bytewise), and the entry of each.\<close>

definition sorted_entries :: "(string \<times> FileInfo) list \<Rightarrow> FileInfo list" where
  "sorted_entries out = map (\<lambda>fn. the (map_of out fn)) (sort (map fst out))"

text \<open>The listing of the backend as \<open>ReadDir\<close> takes it when it merges: an error for
  which \<open>os.IsNotExist\<close> holds is an empty listing.\<close>

definition real_entries :: "backends \<Rightarrow> backend \<Rightarrow> string \<Rightarrow> error + FileInfo list" where
  "real_entries w f sub =
     (case be_ReadDir w f sub of
        Inl err \<Rightarrow> if \<not> IsNotExist err then Inl err else Inr []
      | Inr entries \<Rightarrow> Inr entries)"

definition ReadDir :: "Router \<Rightarrow> backends \<Rightarrow> string \<Rightarrow> error + FileInfo list" where
  "ReadDir r w p =
     (case resolvePath r p of
        (sub, None) \<Rightarrow> Inl PanicNil
      | (sub, Some f) \<Rightarrow>
          (let sr = readdir_walk (Split p) (r_routes r)
           in if length (routes sr) = 0 then be_ReadDir w f sub
              else
                (case real_entries w f sub of
                   Inl err \<Rightarrow> Inl err
                 | Inr entries \<Rightarrow>
                     (case merge_routes w (routes sr) (insert_entries entries []) of
                        Inl err \<Rightarrow> Inl err
                      | Inr out \<Rightarrow> Inr (sorted_entries out)))))"

section \<open>Notions the properties are stated with\<close>

text \<open>The node of the mount table at a path of segments, and the backend bound there
  (\<^const>\<open>None\<close> when there is no such node or it has no backend).\<close>

fun node_at :: "string list \<Rightarrow> subRoute \<Rightarrow> subRoute option" where
  "node_at [] sr = Some sr"
| "node_at (s # sp) sr =
     (case map_of (routes sr) s of
        None \<Rightarrow> None
      | Some c \<Rightarrow> node_at sp c)"

definition bound_at :: "string list \<Rightarrow> subRoute \<Rightarrow> backend option" where
  "bound_at sp sr = (case node_at sp sr of None \<Rightarrow> None | Some n \<Rightarrow> fs n)"

text \<open>A node is live when it has a backend or a descendant that has one.\<close>

fun live :: "subRoute \<Rightarrow> bool" where
  "live (SubRoute f t rs) = (f \<noteq> None \<or> list_ex (\<lambda>kc. live (snd kc)) rs)"

text \<open>The table below a node is garbage free when every node below it is live.\<close>

fun garbage_free :: "subRoute \<Rightarrow> bool" where
  "garbage_free (SubRoute f t rs) =
     list_all (\<lambda>kc. live (snd kc) \<and> garbage_free (snd kc)) rs"

text \<open>No node below a node is retained without a backend and without children.\<close>

fun no_empty_node :: "subRoute \<Rightarrow> bool" where
  "no_empty_node (SubRoute f t rs) =
     list_all (\<lambda>kc. (fs (snd kc) \<noteq> None \<or> routes (snd kc) \<noteq> []) \<and> no_empty_node (snd kc)) rs"

text \<open>The keys of every map of the table are distinct, as those of a Go map are.\<close>

fun distinct_keys :: "subRoute \<Rightarrow> bool" where
  "distinct_keys (SubRoute f t rs) =
     (distinct (map fst rs) \<and> list_all (\<lambda>kc. distinct_keys (snd kc)) rs)"

text \<open>A call of \<open>Mount\<close> or \<open>Umount\<close> with the time it reads, and a sequence of such
  calls; a panic ends the sequence.\<close>

datatype op = OpMount string backend time | OpUmount string time

fun apply_op :: "op \<Rightarrow> Router \<Rightarrow> error + Router" where
  "apply_op (OpMount p f now) r = Inr (Mount p f now r)"
| "apply_op (OpUmount p now) r = Umount p now r"

fun apply_ops :: "op list \<Rightarrow> Router \<Rightarrow> error + Router" where
  "apply_ops [] r = Inr r"
| "apply_ops (x # xs) r =
     (case apply_op x r of
        Inl e \<Rightarrow> Inl e
      | Inr r' \<Rightarrow> apply_ops xs r')"

text \<open>Backends to evaluate the operations on: every call succeeds, a file reports the
  path it was opened with, \<open>Stat\<close> reports a directory whose size tells the backend, and
  every directory lists a directory \<open>var\<close> and a file \<open>tmp\<close>.\<close>

definition stat_of :: "backend \<Rightarrow> string \<Rightarrow> FileInfo" where
  "stat_of b p =
     \<lparr> fi_Name = p, fi_Size = int b, fi_Mode = 2 ^ 31, fi_ModTime = 0, fi_IsDir = True \<rparr>"

definition real_var :: FileInfo where
  "real_var =
     \<lparr> fi_Name = ''var'', fi_Size = 64, fi_Mode = 2 ^ 31, fi_ModTime = 3, fi_IsDir = True \<rparr>"

definition real_tmp :: FileInfo where
  "real_tmp =
     \<lparr> fi_Name = ''tmp'', fi_Size = 12, fi_Mode = 420, fi_ModTime = 4, fi_IsDir = False \<rparr>"

definition example_backends :: backends where
  "example_backends =
     \<lparr> be_Create = (\<lambda>b p. Inr (File p b)),
       be_Open = (\<lambda>b p. Inr (File p b)),
       be_OpenFile = (\<lambda>b p flag mode. Inr (File p b)),
       be_Stat = (\<lambda>b p. Inr (stat_of b p)),
       be_Rename = (\<lambda>b p q. None),
       be_ReadDir = (\<lambda>b p. Inr [real_var, real_tmp]),
       be_TempFile = (\<lambda>b d p. Inr (File (d @ p) b)) \<rparr>"

text \<open>A table with an intermediate node: what the loop of \<open>Mount\<close> builds for the
  segments \<open>var\<close>, \<open>empty\<close> and then for \<open>tmp\<close> and for \<open>opt\<close>, \<open>x\<close>.\<close>

definition example_table :: subRoute where
  "example_table =
     mount_loop [''opt'', ''x''] 6 9
       (mount_loop [''tmp''] 6 8
          (mount_loop [''var'', ''empty''] 5 7 (SubRoute (Some 1) 0 [])))"

definition example_router :: Router where
  "example_router =
     \<lparr> r_routes = example_table,
       crossFilesystemRenameCallback = crossFilesystemRenameNotSupported \<rparr>"

text \<open>A table is flat when every node below the root is a child of the root, with a
  backend and without children.\<close>

definition flat :: "subRoute \<Rightarrow> bool" where
  "flat sr = list_all (\<lambda>kc. fs (snd kc) \<noteq> None \<and> routes (snd kc) = []) (routes sr)"

section \<open>Lemmas about the string functions and the maps\<close>

lemma Split_not_Nil: "Split p \<noteq> []"
  by (induction p) (auto split: list.splits)

lemma list_all_update:
  "list_all P xs \<Longrightarrow> P (k, v) \<Longrightarrow> list_all P (AList.update k v xs)"
  by (induction xs) auto

lemma list_all_delete:
  "list_all P xs \<Longrightarrow> list_all P (AList.delete k xs)"
  by (induction xs) auto

lemma list_ex_update:
  "P (k, v) \<Longrightarrow> list_ex P (AList.update k v xs)"
  by (induction xs) auto

lemma find_app:
  "find P (xs @ ys) = (case find P xs of None \<Rightarrow> find P ys | Some x \<Rightarrow> Some x)"
  by (induction xs) auto

section \<open>The garbage-free table\<close>

lemma live_routes: "live sr = (fs sr \<noteq> None \<or> list_ex (\<lambda>kc. live (snd kc)) (routes sr))"
  by (cases sr) simp

lemma garbage_free_routes:
  "garbage_free sr = list_all (\<lambda>kc. live (snd kc) \<and> garbage_free (snd kc)) (routes sr)"
  by (cases sr) simp

lemma garbage_free_child:
  "garbage_free sr \<Longrightarrow> map_of (routes sr) s = Some c \<Longrightarrow> live c \<and> garbage_free c"
  by (auto simp: garbage_free_routes [of sr] list_all_iff dest!: map_of_SomeD)

lemma live_mount_loop: "live (mount_loop sp now f sr)"
proof (induction sp arbitrary: sr)
  case Nil
  show ?case by simp
next
  case (Cons s sp)
  show ?case
    by (simp add: Let_def list_ex_update Cons.IH)
qed

lemma garbage_free_mount_loop:
  "garbage_free sr \<Longrightarrow> garbage_free (mount_loop sp now f sr)"
proof (induction sp arbitrary: sr)
  case Nil
  then show ?case by (simp add: garbage_free_routes [of sr])
next
  case (Cons s sp)
  define c where "c = (case map_of (routes sr) s of None \<Rightarrow> SubRoute None 0 [] | Some c \<Rightarrow> c)"
  have "garbage_free c"
    using Cons.prems garbage_free_child [of sr s] by (auto simp: c_def split: option.splits)
  then have "garbage_free (SubRoute (fs c) now (routes c))"
    by (simp add: garbage_free_routes [of c])
  then have "garbage_free (mount_loop sp now f (SubRoute (fs c) now (routes c)))"
    by (rule Cons.IH)
  moreover have "live (mount_loop sp now f (SubRoute (fs c) now (routes c)))"
    by (rule live_mount_loop)
  moreover have "list_all (\<lambda>kc. live (snd kc) \<and> garbage_free (snd kc)) (routes sr)"
    using Cons.prems by (simp add: garbage_free_routes [of sr])
  ultimately show ?case
    by (simp add: c_def [symmetric] list_all_update)
qed

lemma garbage_free_nonempty_live:
  "garbage_free sr \<Longrightarrow> routes sr \<noteq> [] \<Longrightarrow> live sr"
  by (cases sr; cases "routes sr") auto

lemma garbage_free_umount_loop:
  "umount_loop sp now sr = Some (sr', running) \<Longrightarrow> garbage_free sr \<Longrightarrow>
   garbage_free sr' \<and> (running \<or> live sr')"
proof (induction sp arbitrary: sr sr' running)
  case Nil
  then show ?case by (auto simp: garbage_free_routes [of sr])
next
  case (Cons s sp)
  from Cons.prems(1) obtain c c' run where
    c: "map_of (routes sr) s = Some c" and
    u: "umount_loop sp now c = Some (c', run)"
    by (auto split: option.splits)
  have gfc: "garbage_free c"
    using Cons.prems(2) c garbage_free_child by blast
  have ih: "garbage_free c'" "run \<or> live c'"
    using Cons.IH [OF u gfc] by auto
  have rest: "list_all (\<lambda>kc. live (snd kc) \<and> garbage_free (snd kc)) (routes sr)"
    using Cons.prems(2) by (simp add: garbage_free_routes [of sr])
  show ?case
  proof (cases "run \<and> \<not> (length (routes c') > 0 \<or> fs c' \<noteq> None)")
    case True
    then have "sr' = SubRoute (fs sr) now (AList.delete s (routes sr))" "running"
      using Cons.prems(1) c u by auto
    then show ?thesis using rest by (simp add: list_all_delete)
  next
    case False
    then have eq: "sr' = SubRoute (fs sr) (mtime sr) (AList.update s c' (routes sr))"
      using Cons.prems(1) c u by auto
    have "live c'"
      using False ih garbage_free_nonempty_live [of c'] live_routes [of c'] by auto
    then show ?thesis
      using eq rest ih(1) by (simp add: list_all_update list_ex_update)
  qed
qed

lemma garbage_free_no_empty_node: "garbage_free sr = no_empty_node sr"
proof (induction sr rule: garbage_free.induct)
  case (1 f t rs)
  have "\<And>kc. kc \<in> set rs \<Longrightarrow>
     (live (snd kc) \<and> garbage_free (snd kc)) =
     ((fs (snd kc) \<noteq> None \<or> routes (snd kc) \<noteq> []) \<and> no_empty_node (snd kc))"
  proof -
    fix kc assume kc: "kc \<in> set rs"
    have ih: "garbage_free (snd kc) = no_empty_node (snd kc)"
      using "1.IH" [OF kc] .
    show "(live (snd kc) \<and> garbage_free (snd kc)) =
     ((fs (snd kc) \<noteq> None \<or> routes (snd kc) \<noteq> []) \<and> no_empty_node (snd kc))"
      using ih garbage_free_nonempty_live [of "snd kc"] live_routes [of "snd kc"]
      by (cases "routes (snd kc)") auto
  qed
  then show ?case
    by (simp add: list_all_iff)
qed

section \<open>Distinct keys\<close>

lemma distinct_keys_routes:
  "distinct_keys sr =
     (distinct (map fst (routes sr)) \<and> list_all (\<lambda>kc. distinct_keys (snd kc)) (routes sr))"
  by (cases sr) simp

lemma distinct_keys_child:
  "distinct_keys sr \<Longrightarrow> map_of (routes sr) s = Some c \<Longrightarrow> distinct_keys c"
  by (auto simp: distinct_keys_routes [of sr] list_all_iff dest!: map_of_SomeD)

lemma distinct_keys_mount_loop:
  "distinct_keys sr \<Longrightarrow> distinct_keys (mount_loop sp now f sr)"
proof (induction sp arbitrary: sr)
  case Nil
  then show ?case by (simp add: distinct_keys_routes [of sr])
next
  case (Cons s sp)
  define c where "c = (case map_of (routes sr) s of None \<Rightarrow> SubRoute None 0 [] | Some c \<Rightarrow> c)"
  have "distinct_keys c"
    using Cons.prems distinct_keys_child [of sr s] by (auto simp: c_def split: option.splits)
  then have "distinct_keys (SubRoute (fs c) now (routes c))"
    by (simp add: distinct_keys_routes [of c])
  then have "distinct_keys (mount_loop sp now f (SubRoute (fs c) now (routes c)))"
    by (rule Cons.IH)
  moreover have "distinct (map fst (routes sr))"
    "list_all (\<lambda>kc. distinct_keys (snd kc)) (routes sr)"
    using Cons.prems by (simp_all add: distinct_keys_routes [of sr])
  ultimately show ?case
    by (simp add: c_def [symmetric] list_all_update distinct_update)
qed

lemma distinct_keys_umount_loop:
  "umount_loop sp now sr = Some (sr', running) \<Longrightarrow> distinct_keys sr \<Longrightarrow> distinct_keys sr'"
proof (induction sp arbitrary: sr sr' running)
  case Nil
  then show ?case by (auto simp: distinct_keys_routes [of sr])
next
  case (Cons s sp)
  from Cons.prems(1) obtain c c' run where
    c: "map_of (routes sr) s = Some c" and
    u: "umount_loop sp now c = Some (c', run)"
    by (auto split: option.splits)
  have "distinct_keys c'"
    using Cons.IH [OF u] distinct_keys_child [OF Cons.prems(2) c] by simp
  moreover have "distinct (map fst (routes sr))"
    "list_all (\<lambda>kc. distinct_keys (snd kc)) (routes sr)"
    using Cons.prems(2) by (simp_all add: distinct_keys_routes [of sr])
  ultimately show ?case
    using Cons.prems(1) c u
    by (auto simp: list_all_update list_all_delete distinct_update distinct_delete
        split: if_splits)
qed

lemma distinct_keys_readdir_walk:
  "distinct_keys sr \<Longrightarrow> distinct_keys (readdir_walk sp sr)"
  by (induction sp arbitrary: sr) (auto split: option.splits dest: distinct_keys_child)

section \<open>What Mount changes\<close>



lemma node_at_stamp: "q \<noteq> [] \<Longrightarrow> node_at q (SubRoute g t rs) = node_at q (SubRoute g' t' rs)"
  by (cases q) simp_all






text \<open>On a node without children, the loops of \<open>Mount\<close> and \<open>Umount\<close> over the same
  segments leave a node without children again.\<close>

lemma mount_umount_fresh:
  "umount_loop sp now' (mount_loop sp now f (SubRoute g t [])) =
     Some (SubRoute (if sp = [] then None else g) (if sp = [] then t else now') [], True)"
proof (induction sp arbitrary: g t)
  case Nil
  show ?case by simp
next
  case (Cons s sp)
  show ?case
    using Cons.IH [of None now] by (simp add: Let_def)
qed

section \<open>The merge of a listing\<close>

lemma map_of_insert_entries:
  "map_of (insert_entries es out) k =
     (case find (\<lambda>e. fi_Name e = k) (rev es) of
        None \<Rightarrow> map_of out k
      | Some e \<Rightarrow> Some e)"
proof (induction es arbitrary: out)
  case Nil
  show ?case by simp
next
  case (Cons e es)
  show ?case
    by (simp add: Cons.IH update_conv' find_app split: option.splits)
qed

lemma merge_routes_other:
  "merge_routes w rs out0 = Inr out \<Longrightarrow> k \<notin> fst ` set rs \<Longrightarrow> map_of out k = map_of out0 k"
proof (induction w rs out0 rule: merge_routes.induct)
  case (1 w out0)
  then show ?case by simp
next
  case (2 w mp ro rest out0)
  then show ?case
    by (auto simp: update_conv' split: option.splits if_splits sum.splits)
qed

lemma merge_routes_child:
  "merge_routes w rs out0 = Inr out \<Longrightarrow> distinct (map fst rs) \<Longrightarrow> (mp, ro) \<in> set rs \<Longrightarrow>
   (case fs ro of
      None \<Rightarrow>
        (case map_of out0 mp of
           None \<Rightarrow> map_of out mp = Some (virtualDir mp (mtime ro))
         | Some e \<Rightarrow>
             map_of out mp = Some (if fi_IsDir e then e else virtualDir mp (mtime ro)))
    | Some b \<Rightarrow> (\<exists>st. be_Stat w b ''/'' = Inr st \<and> map_of out mp = Some st))"
proof (induction w rs out0 rule: merge_routes.induct)
  case (1 w out0)
  then show ?case by simp
next
  case (2 w k c rest out0)
  show ?case
  proof (cases "(mp, ro) = (k, c)")
    case True
    then have notin: "mp \<notin> fst ` set rest"
      using "2.prems"(2) by auto
    show ?thesis
      using True "2.prems"(1) merge_routes_other [OF _ notin]
      by (auto simp: update_conv' split: option.splits if_splits sum.splits)
  next
    case False
    then have mem: "(mp, ro) \<in> set rest" using "2.prems"(3) by auto
    then have neq: "mp \<noteq> k" using "2.prems"(2) by (auto simp: image_iff)
    have d: "distinct (map fst rest)" using "2.prems"(2) by simp
    show ?thesis
      using "2.prems"(1) "2.IH"(1)[OF _ _ _ d mem] "2.IH"(2)[OF _ _ _ _ d mem] "2.IH"(3)[OF _ _ _ _ d mem] "2.IH"(4)[OF _ _ _ d mem] neq
      by (auto simp: update_conv' split: option.splits if_splits sum.splits)
  qed
qed

lemma sorted_entries_mem:
  "map_of out k = Some v \<Longrightarrow> v \<in> set (sorted_entries out)"
proof -
  assume a: "map_of out k = Some v"
  then have "k \<in> set (map fst out)"
    by (metis map_of_eq_None_iff option.distinct(1) set_map)
  then have "the (map_of out k) \<in> set (sorted_entries out)"
    by (simp add: sorted_entries_def)
  then show ?thesis using a by simp
qed

section \<open>Path normalisation and resolution\<close>

lemma cleanPath_range: "cleanPath p = ''.'' \<or> cleanPath p = ''''"
  by (simp add: cleanPath_def Let_def)

lemma Split_cleanPath: "Split (cleanPath p) = [''.''] \<or> Split (cleanPath p) = ['''']"
  using cleanPath_range [of p] by auto


lemma resolvePathWithMount_eq:
  "resolvePathWithMount r p = (cleanPath p, '''', fs (r_routes r))"
  using Split_cleanPath [of p] cleanPath_range [of p]
  by (auto simp: resolvePathWithMount_def Let_def split: option.splits)

lemma cleanPath_dot: "cleanPath ''.'' = ''.''"
  by (simp add: cleanPath_def path_Clean_def TrimRight_def)

lemma cleanPath_tmp: "cleanPath ''/tmp'' = ''''"
  by (simp add: cleanPath_def path_Clean_def TrimRight_def)

lemma cleanPath_tmp_x: "cleanPath ''/tmp/x'' = ''''"
  by (simp add: cleanPath_def path_Clean_def TrimRight_def)

lemma cleanPath_var: "cleanPath ''/var'' = ''''"
  by (simp add: cleanPath_def path_Clean_def TrimRight_def)

lemma example_table_eq:
  "example_table =
     SubRoute (Some 1) 0
       [(''var'', SubRoute None 5 [(''empty'', SubRoute (Some 7) 5 [])]),
        (''tmp'', SubRoute (Some 8) 6 []),
        (''opt'', SubRoute None 6 [(''x'', SubRoute (Some 9) 6 [])])]"
  by (simp add: example_table_def Let_def)

text \<open>
  C1. \<open>Resolve(p)\<close> is claimed to return the backend bound at the deepest node of the
  mount table whose path is a prefix of the segments of \<open>p\<close>, with the unmatched
  remainder and the matched prefix. The source evaluated where it does not: on a router
  with root backend \<open>1\<close> and backend \<open>7\<close> mounted at \<open>/tmp\<close>, the table has one node
  below the root, with the empty segment, bound to \<open>7\<close>; it is on the path of
  \<open>/tmp/x\<close>, normalised by \<open>cleanPath\<close> or only split. \<open>resolvePathWithMount\<close>
  returns the root backend \<open>1\<close>: its loop never assigns \<open>mount\<close>.
\<close>

theorem resolve_returns_root_under_mount:
  "r_routes (Mount ''/tmp'' 7 5 (New 1 0)) =
     SubRoute (Some 1) 0 [('''', SubRoute (Some 7) 5 [])] \<and>
   Split (cleanPath ''/tmp/x'') = [''''] \<and>
   Split ''/tmp/x'' = ['''', ''tmp'', ''x''] \<and>
   bound_at [''''] (r_routes (Mount ''/tmp'' 7 5 (New 1 0))) = Some 7 \<and>
   resolvePathWithMount (Mount ''/tmp'' 7 5 (New 1 0)) ''/tmp/x'' = ('''', '''', Some 1)"
  by (simp add: cleanPath_tmp cleanPath_tmp_x Mount_def New_def bound_at_def
      resolvePathWithMount_def Let_def)

text \<open>The loop alone, on the table with a backend at \<open>var/empty\<close>: for the segments
  \<open>var\<close>, \<open>empty\<close>, \<open>f\<close> it returns \<open>lastMount = 1\<close>, the index of the bound node and
  not the index after it.\<close>

lemma resolve_loop_example:
  "bound_at [''var'', ''empty''] example_table = Some 7 \<and>
   resolve_loop [''var'', ''empty'', ''f''] 0 example_table 0 = 1"
  by (simp add: example_table_def bound_at_def Let_def)

text \<open>
  C2. The normalisation is claimed to return the cleaned path without trailing
  separators, and the root form for a path that cleans to \<open>.\<close>. The source evaluated
  where it does not: \<open>/tmp\<close> cleans to \<open>/tmp\<close> and \<open>cleanPath\<close> returns the empty
  string; \<open>.\<close> cleans to \<open>.\<close> and \<open>cleanPath\<close> returns \<open>.\<close>. The two results of the
  function are exchanged.
\<close>

theorem cleanPath_results_exchanged:
  "TrimRight (path_Clean ''/tmp'') = ''/tmp'' \<and> cleanPath ''/tmp'' = '''' \<and>
   TrimRight (path_Clean ''.'') = ''.'' \<and> cleanPath ''.'' = ''.''"
  by (simp add: cleanPath_def path_Clean_def TrimRight_def)

text \<open>
  C3. \<open>Mount("A/B/C", fs)\<close> on a table with only the root is claimed to create nodes at
  \<open>A\<close> and \<open>A/B\<close> without a backend and to bind \<open>fs\<close> at \<open>A/B/C\<close>. The source
  evaluated: the path cleans to \<open>A/B/C\<close>, which splits into three segments, but
  \<open>cleanPath\<close> returns the empty string, and \<open>Mount\<close> creates the single node with
  the empty segment, bound to the backend; there is no node \<open>A\<close>.
\<close>

theorem Mount_ABC_creates_one_node:
  "TrimRight (path_Clean ''A/B/C'') = ''A/B/C'' \<and>
   Split ''A/B/C'' = [''A'', ''B'', ''C''] \<and>
   r_routes (Mount ''A/B/C'' 7 5 (New 1 0)) =
     SubRoute (Some 1) 0 [('''', SubRoute (Some 7) 5 [])] \<and>
   node_at [''A''] (r_routes (Mount ''A/B/C'' 7 5 (New 1 0))) = None"
  by (simp add: cleanPath_def path_Clean_def TrimRight_def Mount_def New_def Let_def)

text \<open>The loops alone, on the three segments: \<open>Mount\<close>'s creates the two intermediate
  nodes and the bound one, \<open>Umount\<close>'s removes all three.\<close>

lemma mount_loop_ABC:
  "mount_loop [''A'', ''B'', ''C''] 5 7 (SubRoute (Some 1) 0 []) =
     SubRoute (Some 1) 0
       [(''A'', SubRoute None 5 [(''B'', SubRoute None 5 [(''C'', SubRoute (Some 7) 5 [])])])] \<and>
   umount_loop [''A'', ''B'', ''C''] 9
       (mount_loop [''A'', ''B'', ''C''] 5 7 (SubRoute (Some 1) 0 [])) =
     Some (SubRoute (Some 1) 9 [], True)"
  by (simp add: Let_def)

section \<open>The tables that Mount and Umount build\<close>

text \<open>Since every normalised path is a single segment, \<open>Mount\<close> and \<open>Umount\<close> keep
  a flat table flat, and the table of a new router is flat.\<close>

lemma flat_child:
  "flat sr \<Longrightarrow> map_of (routes sr) s = Some c \<Longrightarrow> fs c \<noteq> None \<and> routes c = []"
  by (auto simp: flat_def list_all_iff dest!: map_of_SomeD)

lemma flat_mount_loop_single: "flat sr \<Longrightarrow> flat (mount_loop [s] now f sr)"
proof -
  assume fl: "flat sr"
  have rest: "list_all (\<lambda>kc. fs (snd kc) \<noteq> None \<and> routes (snd kc) = []) (routes sr)"
    using fl by (simp add: flat_def)
  show ?thesis
  proof (cases "map_of (routes sr) s")
    case None
    then show ?thesis
      using rest by (simp add: flat_def list_all_update)
  next
    case (Some c)
    have "routes c = []"
      using flat_child [OF fl Some] by simp
    then show ?thesis
      using rest Some by (simp add: flat_def list_all_update)
  qed
qed

lemma flat_umount_loop_single:
  "flat sr \<Longrightarrow> umount_loop [s] now sr = Some (sr', running) \<Longrightarrow> flat sr'"
proof -
  assume fl: "flat sr" and u: "umount_loop [s] now sr = Some (sr', running)"
  from u obtain c where c: "map_of (routes sr) s = Some c"
    by (auto split: option.splits)
  have "routes c = []"
    using flat_child [OF fl c] by simp
  then have "sr' = SubRoute (fs sr) now (AList.delete s (routes sr))"
    using u c by simp
  then show ?thesis
    using fl by (simp add: flat_def list_all_delete)
qed

lemma flat_New: "flat (r_routes (New root now))"
  by (simp add: New_def flat_def)

lemma flat_Mount: "flat (r_routes r) \<Longrightarrow> flat (r_routes (Mount p f now r))"
proof -
  assume fl: "flat (r_routes r)"
  obtain s where sp: "Split (cleanPath p) = [s]"
    using Split_cleanPath [of p] by auto
  have "r_routes (Mount p f now r) = mount_loop [s] now f (r_routes r)"
    unfolding Mount_def sp by simp
  then show ?thesis
    using flat_mount_loop_single [OF fl, of s now f] by simp
qed

lemma flat_Umount:
  "flat (r_routes r) \<Longrightarrow> Umount p now r = Inr r' \<Longrightarrow> flat (r_routes r')"
proof -
  assume fl: "flat (r_routes r)" and u: "Umount p now r = Inr r'"
  obtain s where sp: "Split (cleanPath p) = [s]"
    using Split_cleanPath [of p] by auto
  from u obtain sr' running where
    l: "umount_loop [s] now (r_routes r) = Some (sr', running)" and r': "r_routes r' = sr'"
    unfolding Umount_def sp by (auto split: option.splits)
  show ?thesis
    using flat_umount_loop_single [OF fl l] r' by simp
qed

lemma flat_apply_ops:
  "flat (r_routes r) \<Longrightarrow> apply_ops xs r = Inr r' \<Longrightarrow> flat (r_routes r')"
proof (induction xs arbitrary: r)
  case Nil
  then show ?case by simp
next
  case (Cons x xs)
  from Cons.prems(2) obtain r1 where s: "apply_op x r = Inr r1" and t: "apply_ops xs r1 = Inr r'"
    by (auto split: sum.splits)
  have "flat (r_routes r1)"
  proof (cases x)
    case (OpMount p f now)
    then have "r1 = Mount p f now r" using s by simp
    then show ?thesis using flat_Mount [OF Cons.prems(1)] by simp
  next
    case (OpUmount p now)
    then have "Umount p now r = Inr r1" using s by simp
    then show ?thesis by (rule flat_Umount [OF Cons.prems(1)])
  qed
  then show ?case using Cons.IH t by blast
qed

section \<open>Umount of a path that is not mounted\<close>

lemma umount_loop_None: "(umount_loop sp now sr = None) = (node_at sp sr = None)"
proof (induction sp arbitrary: sr)
  case Nil
  show ?case by simp
next
  case (Cons s sp)
  show ?case
  proof (cases "map_of (routes sr) s")
    case None
    then show ?thesis by simp
  next
    case (Some c)
    show ?thesis
    proof (cases "umount_loop sp now c")
      case None
      then show ?thesis using Some Cons.IH [of c] by simp
    next
      case (Some res)
      then have "node_at sp c \<noteq> None" using Cons.IH [of c] by simp
      then show ?thesis
        using Some \<open>map_of (routes sr) s = Some c\<close> by (cases res) simp
    qed
  qed
qed

text \<open>\<open>Umount(p)\<close> panics exactly when the walk over the segments of the normalised
  \<open>p\<close> meets a segment without a node.\<close>

lemma Umount_panics_iff_node_missing:
  "(Umount p now r = Inl (PanicNotMountpoint (cleanPath p))) =
     (node_at (Split (cleanPath p)) (r_routes r) = None) \<and>
   (\<exists>r'. Umount p now r = Inr r') =
     (\<exists>n. node_at (Split (cleanPath p)) (r_routes r) = Some n)"
  using umount_loop_None [of "Split (cleanPath p)" now "r_routes r"]
  by (auto simp: Umount_def split: option.splits)

text \<open>On the tables that \<open>Mount\<close> and \<open>Umount\<close> build from a new router, that is
  exactly when no backend is bound at the normalised \<open>p\<close>.\<close>

lemma flat_node_bound:
  "flat sr \<Longrightarrow> (node_at [s] sr = None) = (bound_at [s] sr = None)"
proof -
  assume fl: "flat sr"
  show ?thesis
  proof (cases "map_of (routes sr) s")
    case None
    then show ?thesis by (simp add: bound_at_def)
  next
    case (Some c)
    have "fs c \<noteq> None"
      using flat_child [OF fl Some] by simp
    then show ?thesis
      using Some by (simp add: bound_at_def)
  qed
qed

lemma Umount_panics_iff_unbound:
  assumes "apply_ops xs (New root t0) = Inr r"
  shows "(Umount p now r = Inl (PanicNotMountpoint (cleanPath p))) =
     (bound_at (Split (cleanPath p)) (r_routes r) = None)"
proof -
  have fl: "flat (r_routes r)"
    using flat_apply_ops [OF flat_New assms] .
  obtain s where sp: "Split (cleanPath p) = [s]"
    using Split_cleanPath [of p] by auto
  have "(Umount p now r = Inl (PanicNotMountpoint (cleanPath p))) =
     (node_at [s] (r_routes r) = None)"
    using Umount_panics_iff_node_missing [of p now r] unfolding sp by blast
  also have "\<dots> = (bound_at [s] (r_routes r) = None)"
    by (rule flat_node_bound [OF fl])
  finally show ?thesis unfolding sp .
qed

text \<open>
  C7. \<open>Umount(p)\<close> of a path at which no backend was mounted is claimed to fail
  fatally. The source evaluated where it does not: on a router with root backend \<open>1\<close> and
  backend \<open>7\<close> mounted at \<open>/tmp\<close> only, \<open>/var\<close> normalises to the same key as \<open>/tmp\<close>,
  and \<open>Umount("/var")\<close> returns without a panic; the table has only its root left, the
  mount of \<open>/tmp\<close> is gone.
\<close>

theorem Umount_var_unmounts_tmp:
  "r_routes (Mount ''/tmp'' 7 5 (New 1 0)) =
     SubRoute (Some 1) 0 [('''', SubRoute (Some 7) 5 [])] \<and>
   cleanPath ''/var'' = cleanPath ''/tmp'' \<and>
   Umount ''/var'' 9 (Mount ''/tmp'' 7 5 (New 1 0)) =
     Inr ((New 1 0)\<lparr> r_routes := SubRoute (Some 1) 9 [] \<rparr>)"
proof -
  have m: "r_routes (Mount ''/tmp'' 7 5 (New 1 0)) =
     SubRoute (Some 1) 0 [('''', SubRoute (Some 7) 5 [])]"
    by (simp add: cleanPath_tmp Mount_def New_def Let_def)
  have k: "cleanPath ''/var'' = cleanPath ''/tmp''"
    unfolding cleanPath_tmp cleanPath_var ..
  have u: "Umount ''/var'' 9 (Mount ''/tmp'' 7 5 (New 1 0)) =
     Inr ((New 1 0)\<lparr> r_routes := SubRoute (Some 1) 9 [] \<rparr>)"
    by (simp add: cleanPath_tmp cleanPath_var Mount_def Umount_def New_def Let_def)
  from m k u show ?thesis by blast
qed

section \<open>The garbage-free invariant\<close>

lemma garbage_free_Mount:
  "garbage_free (r_routes r) \<Longrightarrow> garbage_free (r_routes (Mount p f now r))"
  by (simp add: Mount_def garbage_free_mount_loop)

lemma garbage_free_Umount:
  "garbage_free (r_routes r) \<Longrightarrow> Umount p now r = Inr r' \<Longrightarrow> garbage_free (r_routes r')"
  using garbage_free_umount_loop [of "Split (cleanPath p)" now "r_routes r"]
  by (auto simp: Umount_def split: option.splits)

lemma garbage_free_apply_ops:
  "garbage_free (r_routes r) \<Longrightarrow> apply_ops xs r = Inr r' \<Longrightarrow> garbage_free (r_routes r')"
proof (induction xs arbitrary: r)
  case Nil
  then show ?case by simp
next
  case (Cons x xs)
  from Cons.prems(2) obtain r1 where s: "apply_op x r = Inr r1" and t: "apply_ops xs r1 = Inr r'"
    by (auto split: sum.splits)
  have "garbage_free (r_routes r1)"
    using s Cons.prems(1) by (cases x) (auto simp: garbage_free_Mount garbage_free_Umount)
  then show ?case using Cons.IH t by blast
qed

text \<open>
  C4. The table of a new router is garbage free, and every sequence of \<open>Mount\<close> and
  \<open>Umount\<close> calls that completes (no panic) on a garbage-free table leaves a
  garbage-free table: every node below the root has a backend or a descendant that has
  one. Equivalently, no node below the root is retained without a backend and without
  children.
\<close>

theorem garbage_free_invariant:
  "garbage_free (r_routes (New root t0)) \<and>
   (garbage_free (r_routes r) \<and> apply_ops xs r = Inr r' \<longrightarrow>
      garbage_free (r_routes r') \<and> no_empty_node (r_routes r'))"
  using garbage_free_apply_ops [of r xs r'] garbage_free_no_empty_node [of "r_routes r'"]
  by (auto simp: New_def)

theorem garbage_free_invariant_witness:
  "garbage_free (r_routes example_router) \<and>
   apply_ops [OpMount ''/tmp'' 7 5, OpMount ''.'' 8 6, OpUmount ''/var'' 9] example_router =
     Inr (example_router\<lparr> r_routes :=
       SubRoute (Some 1) 9
         [(''var'', SubRoute None 5 [(''empty'', SubRoute (Some 7) 5 [])]),
          (''tmp'', SubRoute (Some 8) 6 []),
          (''opt'', SubRoute None 6 [(''x'', SubRoute (Some 9) 6 [])]),
          (''.'', SubRoute (Some 8) 6 [])] \<rparr>) \<and>
   garbage_free (SubRoute (Some 1) 9
         [(''var'', SubRoute None 5 [(''empty'', SubRoute (Some 7) 5 [])]),
          (''tmp'', SubRoute (Some 8) 6 []),
          (''opt'', SubRoute None 6 [(''x'', SubRoute (Some 9) 6 [])]),
          (''.'', SubRoute (Some 8) 6 [])]) \<and>
   no_empty_node (SubRoute (Some 1) 9
         [(''var'', SubRoute None 5 [(''empty'', SubRoute (Some 7) 5 [])]),
          (''tmp'', SubRoute (Some 8) 6 []),
          (''opt'', SubRoute None 6 [(''x'', SubRoute (Some 9) 6 [])]),
          (''.'', SubRoute (Some 8) 6 [])])"
proof -
  let ?t = "SubRoute (Some 1) 9
         [(''var'', SubRoute None 5 [(''empty'', SubRoute (Some 7) 5 [])]),
          (''tmp'', SubRoute (Some 8) 6 []),
          (''opt'', SubRoute None 6 [(''x'', SubRoute (Some 9) 6 [])]),
          (''.'', SubRoute (Some 8) 6 [])]"
  have g: "garbage_free (r_routes example_router)"
    by (simp add: example_router_def example_table_eq)
  have a: "apply_ops [OpMount ''/tmp'' 7 5, OpMount ''.'' 8 6, OpUmount ''/var'' 9] example_router =
     Inr (example_router\<lparr> r_routes := ?t \<rparr>)"
    by (simp add: example_router_def example_table_eq Mount_def Umount_def cleanPath_tmp
        cleanPath_dot cleanPath_var Let_def)
  show ?thesis
    using garbage_free_invariant [of 1 0 example_router
        "[OpMount ''/tmp'' 7 5, OpMount ''.'' 8 6, OpUmount ''/var'' 9]"
        "example_router\<lparr> r_routes := ?t \<rparr>"] g a
    by simp
qed

section \<open>The merge rule of ReadDir\<close>

text \<open>The maps of a new router have distinct keys, and \<open>Mount\<close> and \<open>Umount\<close> keep
  them so.\<close>

lemma distinct_keys_apply_ops:
  "distinct_keys (r_routes r) \<Longrightarrow> apply_ops xs r = Inr r' \<Longrightarrow> distinct_keys (r_routes r')"
proof (induction xs arbitrary: r)
  case Nil
  then show ?case by simp
next
  case (Cons x xs)
  from Cons.prems(2) obtain r1 where s: "apply_op x r = Inr r1" and t: "apply_ops xs r1 = Inr r'"
    by (auto split: sum.splits)
  have "distinct_keys (r_routes r1)"
  proof (cases x)
    case (OpMount p f now)
    then show ?thesis
      using s Cons.prems(1) by (auto simp: Mount_def distinct_keys_mount_loop)
  next
    case (OpUmount p now)
    then show ?thesis
      using s Cons.prems(1)
        distinct_keys_umount_loop [of "Split (cleanPath p)" now "r_routes r"]
      by (auto simp: Umount_def split: option.splits)
  qed
  then show ?case using Cons.IH t by blast
qed

lemma distinct_keys_New: "distinct_keys (r_routes (New root now))"
  by (simp add: New_def)

text \<open>The walk of \<open>ReadDir\<close> ends at the node of the path when there is one; when a
  segment is missing it ends at the last node it found.\<close>

lemma readdir_walk_node_at: "node_at sp sr = Some n \<Longrightarrow> readdir_walk sp sr = n"
  by (induction sp arbitrary: sr) (auto split: option.splits)

text \<open>
  The merge itself. In a listing that \<open>ReadDir\<close> returns, every child \<open>mp\<close> of the
  node at which its walk ends has an entry \<open>x\<close>, stored under its segment name in the
  merged map of which the listing is the entries in the order of their names:
  \<^item> for a child without a backend and without a real entry of its name, the synthetic
    directory entry \<open>virtualDir\<close> with that name and the time stamp of the node;
  \<^item> for a child without a backend whose real entry of that name is a directory, the
    real entry unchanged (and the synthetic entry when it is not a directory);
  \<^item> for a child with a backend, what \<open>Stat("/")\<close> of that backend returns, whatever
    the real entry of that name is.
  The real entry of a name is the last one of the backend's listing with that name; a
  listing that fails with an error for which \<open>os.IsNotExist\<close> holds counts as empty.
\<close>

lemma ReadDir_merges_children_of_walk:
  assumes dk: "distinct_keys (r_routes r)"
    and res: "resolvePath r p = (sub, Some b)"
    and child: "(mp, ro) \<in> set (routes (readdir_walk (Split p) (r_routes r)))"
    and ok: "ReadDir r w p = Inr listing"
  shows "\<exists>entries out x.
      real_entries w b sub = Inr entries \<and>
      merge_routes w (routes (readdir_walk (Split p) (r_routes r)))
        (insert_entries entries []) = Inr out \<and>
      listing = sorted_entries out \<and>
      map_of out mp = Some x \<and> x \<in> set listing \<and>
      (case fs ro of
         None \<Rightarrow>
           (case find (\<lambda>e. fi_Name e = mp) (rev entries) of
              None \<Rightarrow> x = virtualDir mp (mtime ro)
            | Some e \<Rightarrow> x = (if fi_IsDir e then e else virtualDir mp (mtime ro)))
       | Some m \<Rightarrow> be_Stat w m ''/'' = Inr x)"
proof -
  let ?sr = "readdir_walk (Split p) (r_routes r)"
  have ne: "length (routes ?sr) \<noteq> 0"
    using child by auto
  have d: "distinct (map fst (routes ?sr))"
    using distinct_keys_readdir_walk [OF dk, of "Split p"]
    by (simp add: distinct_keys_routes [of ?sr])
  from ok res ne obtain entries out where
    e: "real_entries w b sub = Inr entries" and
    m: "merge_routes w (routes ?sr) (insert_entries entries []) = Inr out" and
    l: "listing = sorted_entries out"
    by (auto simp: ReadDir_def Let_def split: sum.splits)
  have real: "map_of (insert_entries entries []) mp = find (\<lambda>e. fi_Name e = mp) (rev entries)"
    by (simp add: map_of_insert_entries split: option.splits)
  from merge_routes_child [OF m d child] real
  obtain x where
    x: "map_of out mp = Some x" and
    c: "(case fs ro of
         None \<Rightarrow>
           (case find (\<lambda>e. fi_Name e = mp) (rev entries) of
              None \<Rightarrow> x = virtualDir mp (mtime ro)
            | Some e \<Rightarrow> x = (if fi_IsDir e then e else virtualDir mp (mtime ro)))
       | Some m \<Rightarrow> be_Stat w m ''/'' = Inr x)"
    by (auto split: option.splits)
  have "x \<in> set listing"
    using sorted_entries_mem [OF x] l by simp
  with e m l x c show ?thesis by blast
qed

text \<open>The same for the children of the node of the listed path, when the table has
  that node.\<close>

lemma ReadDir_merges_children_of_node:
  assumes dk: "distinct_keys (r_routes r)"
    and res: "resolvePath r p = (sub, Some b)"
    and node: "node_at (Split p) (r_routes r) = Some n"
    and child: "(mp, ro) \<in> set (routes n)"
    and ok: "ReadDir r w p = Inr listing"
  shows "\<exists>entries out x.
      real_entries w b sub = Inr entries \<and>
      merge_routes w (routes n) (insert_entries entries []) = Inr out \<and>
      listing = sorted_entries out \<and>
      map_of out mp = Some x \<and> x \<in> set listing \<and>
      (case fs ro of
         None \<Rightarrow>
           (case find (\<lambda>e. fi_Name e = mp) (rev entries) of
              None \<Rightarrow> x = virtualDir mp (mtime ro)
            | Some e \<Rightarrow> x = (if fi_IsDir e then e else virtualDir mp (mtime ro)))
       | Some m \<Rightarrow> be_Stat w m ''/'' = Inr x)"
proof -
  have w: "readdir_walk (Split p) (r_routes r) = n"
    by (rule readdir_walk_node_at [OF node])
  have c: "(mp, ro) \<in> set (routes (readdir_walk (Split p) (r_routes r)))"
    unfolding w by (rule child)
  show ?thesis
    using ReadDir_merges_children_of_walk [OF dk res c ok] unfolding w .
qed

text \<open>On a flat table only the root has children, all of them bound, and the walk ends
  at the root only when the first segment of the path as given has no node: the tables
  that \<open>Mount\<close> and \<open>Umount\<close> build have no node with children for any listed path.\<close>

lemma flat_readdir_walk_children:
  assumes fl: "flat sr" and child: "(mp, ro) \<in> set (routes (readdir_walk sp sr))"
  shows "readdir_walk sp sr = sr \<and> fs ro \<noteq> None"
proof -
  have root: "readdir_walk sp sr = sr"
  proof (cases sp)
    case Nil
    then show ?thesis by simp
  next
    case (Cons s rest)
    show ?thesis
    proof (cases "map_of (routes sr) s")
      case None
      then show ?thesis using Cons by simp
    next
      case (Some c)
      have e: "routes c = []"
        using flat_child [OF fl Some] by simp
      have "readdir_walk rest c = c"
        using e by (cases rest) simp_all
      then have "routes (readdir_walk sp sr) = []"
        using Cons Some e by simp
      then show ?thesis using child by simp
    qed
  qed
  then have "(mp, ro) \<in> set (routes sr)"
    using child by simp
  then have "fs ro \<noteq> None"
    using fl by (auto simp: flat_def list_all_iff)
  with root show ?thesis by simp
qed

lemma flat_node_at_no_children:
  "flat sr \<Longrightarrow> node_at (Split p) sr = Some n \<Longrightarrow> routes n = []"
proof -
  assume fl: "flat sr" and n: "node_at (Split p) sr = Some n"
  obtain s rest where sp: "Split p = s # rest"
    using Split_not_Nil [of p] by (cases "Split p") auto
  from n sp obtain c where c: "map_of (routes sr) s = Some c" and nc: "node_at rest c = Some n"
    by (auto split: option.splits)
  have e: "routes c = []"
    using flat_child [OF fl c] by simp
  have "n = c"
    using nc e by (cases rest) simp_all
  then show ?thesis using e by simp
qed

lemma cleanPath_var_empty: "cleanPath ''/var/empty'' = ''''"
  by (simp add: cleanPath_def path_Clean_def TrimRight_def)

lemma cleanPath_root: "cleanPath ''/'' = ''''"
  by (simp add: cleanPath_def path_Clean_def TrimRight_def)

text \<open>
  C5. A listing of a directory whose node of the mount table has children is claimed
  to hold an entry for each child: the synthetic directory entry or the real directory
  for a child without a backend, the root metadata of its backend for a child with one.
  The source evaluated where it does not: on a router with root backend \<open>1\<close> and backend
  \<open>7\<close> mounted at \<open>/var/empty\<close>, the table has no node for \<open>/var\<close>, since \<open>Mount\<close>
  bound the backend at the empty segment. \<open>ReadDir("/var")\<close> is what the root backend
  lists for the empty path, whatever that is: no entry for \<open>empty\<close> is merged into it.
  Likewise \<open>ReadDir("/")\<close> is the root backend's listing, without an entry for \<open>var\<close>.
\<close>

theorem ReadDir_var_passes_through:
  "r_routes (Mount ''/var/empty'' 7 5 (New 1 0)) =
     SubRoute (Some 1) 0 [('''', SubRoute (Some 7) 5 [])] \<and>
   node_at (Split ''/var'') (r_routes (Mount ''/var/empty'' 7 5 (New 1 0))) = None \<and>
   ReadDir (Mount ''/var/empty'' 7 5 (New 1 0)) w ''/var'' = be_ReadDir w 1 '''' \<and>
   ReadDir (Mount ''/var/empty'' 7 5 (New 1 0)) w ''/'' = be_ReadDir w 1 '''' \<and>
   ReadDir (Mount ''/var/empty'' 7 5 (New 1 0)) example_backends ''/var'' =
     Inr [real_var, real_tmp] \<and>
   map fi_Name [real_var, real_tmp] = [''var'', ''tmp'']"
  by (simp add: ReadDir_def resolvePath_def resolvePathWithMount_eq cleanPath_var
      cleanPath_root cleanPath_var_empty Mount_def New_def Let_def example_backends_def
      real_var_def real_tmp_def)

text \<open>The merge on a table that the loop of \<open>Mount\<close> builds for segments of its own
  (\<open>var\<close>, \<open>empty\<close>; \<open>tmp\<close>; \<open>opt\<close>, \<open>x\<close>), listed at a path whose first segment has no
  node: the unbound child without real entry, the bound child over a real file, and the
  unbound child with a real directory.\<close>

lemma ReadDir_example:
  "ReadDir example_router example_backends '''' =
     Inr [virtualDir ''opt'' 6, stat_of 8 ''/'', real_var]"
proof -
  have c: "cleanPath '''' = ''.''"
    by (simp add: cleanPath_def path_Clean_def TrimRight_def)
  have s: "sort [''var'', ''tmp'', ''opt''] = [''opt'', ''tmp'', ''var'']"
    by (simp add: less_eq_char_def less_char_def)
  show ?thesis
    by (simp add: ReadDir_def resolvePath_def resolvePathWithMount_eq c
        example_router_def example_table_eq example_backends_def real_entries_def
        real_var_def real_tmp_def sorted_entries_def s)
qed

section \<open>Rename\<close>

text \<open>The decision of \<open>Rename\<close> on two resolution results: the same backend and the
  same mount-point path give the backend's own \<open>Rename\<close>, whatever callback is
  installed; anything else gives the callback's result. The default callback, which
  \<open>New\<close> installs, returns its error for every argument.\<close>

lemma rename_resolved_decision:
  "(fromMount = toMount \<longrightarrow>
      rename_resolved r w (fromSub, fromMount, Some b) (toSub, toMount, Some b) =
        be_Rename w b fromSub toSub \<and>
      rename_resolved (r\<lparr> crossFilesystemRenameCallback := cb \<rparr>) w
          (fromSub, fromMount, Some b) (toSub, toMount, Some b) =
        be_Rename w b fromSub toSub) \<and>
   (fromFS \<noteq> toFS \<or> fromMount \<noteq> toMount \<longrightarrow>
      rename_resolved r w (fromSub, fromMount, fromFS) (toSub, toMount, toFS) =
        crossFilesystemRenameCallback r fromFS toFS fromSub toSub) \<and>
   crossFilesystemRenameNotSupported fromFS toFS fromSub toSub = Some ErrCrossRenameNotSupported \<and>
   crossFilesystemRenameCallback (New root now) = crossFilesystemRenameNotSupported"
  by (auto simp: rename_resolved_def crossFilesystemRenameNotSupported_def New_def)

text \<open>\<open>Rename\<close> itself never reaches the callback: both paths resolve to the root
  backend and the empty mount-point path, for every router and every pair of paths.\<close>

lemma Rename_root:
  "Rename r w from to =
     (case fs (r_routes r) of
        None \<Rightarrow> Some PanicNil
      | Some b \<Rightarrow> be_Rename w b (cleanPath from) (cleanPath to))"
  by (simp add: Rename_def rename_resolved_def resolvePathWithMount_eq)

lemma Rename_ignores_callback:
  "Rename (r\<lparr> crossFilesystemRenameCallback := cb \<rparr>) w from to = Rename r w from to"
  by (simp add: Rename_root)

lemma cleanPath_tmp_a: "cleanPath ''/tmp/a'' = ''''"
  by (simp add: cleanPath_def path_Clean_def TrimRight_def)

lemma cleanPath_b: "cleanPath ''/b'' = ''''"
  by (simp add: cleanPath_def path_Clean_def TrimRight_def)

text \<open>
  C6. A rename between two paths that do not resolve to the same backend and mount
  point is claimed to call the installed callback, whose default fails. The source
  evaluated where it does not: on a router with root backend \<open>1\<close>, backend \<open>7\<close> mounted
  at \<open>/tmp\<close> and the default callback, \<open>/tmp/a\<close> is under the mount and \<open>/b\<close> under the
  root, but both resolve to the root backend with the empty mount-point path, and
  \<open>Rename("/tmp/a", "/b")\<close> is the root backend's \<open>Rename("", "")\<close>, whatever that
  returns; where that succeeds, the rename succeeds.
\<close>

theorem Rename_across_mount_delegates_to_root:
  "bound_at [''''] (r_routes (Mount ''/tmp'' 7 5 (New 1 0))) = Some 7 \<and>
   crossFilesystemRenameCallback (Mount ''/tmp'' 7 5 (New 1 0)) =
     crossFilesystemRenameNotSupported \<and>
   resolvePathWithMount (Mount ''/tmp'' 7 5 (New 1 0)) ''/tmp/a'' = ('''', '''', Some 1) \<and>
   resolvePathWithMount (Mount ''/tmp'' 7 5 (New 1 0)) ''/b'' = ('''', '''', Some 1) \<and>
   Rename (Mount ''/tmp'' 7 5 (New 1 0)) w ''/tmp/a'' ''/b'' = be_Rename w 1 '''' '''' \<and>
   Rename (Mount ''/tmp'' 7 5 (New 1 0)) example_backends ''/tmp/a'' ''/b'' = None"
  by (simp add: Rename_root resolvePathWithMount_eq cleanPath_tmp cleanPath_tmp_a cleanPath_b
      Mount_def New_def bound_at_def Let_def example_backends_def)

section \<open>The name of an opened file\<close>

text \<open>
  C8. A file that \<open>Open\<close>, \<open>Create\<close> or \<open>OpenFile\<close> returns for the path \<open>p\<close>
  reports \<open>p\<close> as its name, whatever the backend-relative path of the call and the name
  of the backend's file are.
\<close>

theorem opened_file_reports_original_name:
  "(Open r w p = Inr f \<longrightarrow> wrappedFile_Name f = p) \<and>
   (Create r w p = Inr f \<longrightarrow> wrappedFile_Name f = p) \<and>
   (OpenFile r w p flag mode = Inr f \<longrightarrow> wrappedFile_Name f = p)"
  by (auto simp: Open_def Create_def OpenFile_def wrappedFile_Name_def
      split: prod.splits option.splits sum.splits)

theorem opened_file_reports_original_name_witness:
  "Open example_router example_backends ''/var/empty/x'' =
     Inr \<lparr> wf_File = File '''' 1, originalName = ''/var/empty/x'' \<rparr> \<and>
   Create example_router example_backends ''/var/empty/x'' =
     Inr \<lparr> wf_File = File '''' 1, originalName = ''/var/empty/x'' \<rparr> \<and>
   OpenFile example_router example_backends ''/var/empty/x'' 0 420 =
     Inr \<lparr> wf_File = File '''' 1, originalName = ''/var/empty/x'' \<rparr> \<and>
   wrappedFile_Name \<lparr> wf_File = File '''' 1, originalName = ''/var/empty/x'' \<rparr> = ''/var/empty/x''"
proof -
  have c: "cleanPath ''/var/empty/x'' = ''''"
    by (simp add: cleanPath_def path_Clean_def TrimRight_def)
  show ?thesis
    using opened_file_reports_original_name [of example_router example_backends
        "''/var/empty/x''" "\<lparr> wf_File = File '''' 1, originalName = ''/var/empty/x'' \<rparr>" 0 420]
    by (simp add: Open_def Create_def OpenFile_def resolvePath_def resolvePathWithMount_eq c
        example_router_def example_table_eq example_backends_def)
qed

section \<open>The frame of Mount\<close>




section \<open>TempFile\<close>



end
